theory Spec2Isabelle
  imports
    Main
    "HOL-Library.Finite_Map"
    "HOL-Library.Char_ord"
    "HOL-Library.List_Lexorder"
begin

section \<open>The Api registry of tastypie (\<^verbatim>\<open>tastypie/api.py\<close>)\<close>

text \<open>
  The class \<^verbatim>\<open>Api\<close> keeps two dictionaries from resource names to resource
  objects, \<^verbatim>\<open>_registry\<close> and \<^verbatim>\<open>_canonicals\<close>, and the string
  \<^verbatim>\<open>api_name\<close>. Resources are objects: the dictionaries hold references, and
  \<^verbatim>\<open>urls\<close> writes the attribute \<^verbatim>\<open>api_name\<close> of every registered resource.
  The model therefore has an object store from references to the attributes the code
  reads and writes, and the dictionaries map names to references.

  Names are strings, compared as Python compares \<^verbatim>\<open>str\<close>: character by character,
  a proper prefix being smaller (the order of \<open>HOL-Library.List_Lexorder\<close> over
  \<open>HOL-Library.Char_ord\<close>).
\<close>

subsection \<open>Resource objects\<close>

type_synonym ref = nat

text \<open>
  The value of the attribute \<^verbatim>\<open>resource_name\<close> of an object: the attribute may be
  missing, may hold \<^verbatim>\<open>None\<close>, or holds a name.
\<close>

datatype attr = Absent | PyNone | Str string

record resource =
  resource_name :: attr
  res_api_name :: "string option"

text \<open>\<^verbatim>\<open>getattr(resource, 'resource_name', None)\<close>: a missing attribute reads as \<^verbatim>\<open>None\<close>.\<close>

definition getattr_resource_name :: "resource \<Rightarrow> string option" where
  "getattr_resource_name r =
     (case resource_name r of
        Absent \<Rightarrow> None
      | PyNone \<Rightarrow> None
      | Str n \<Rightarrow> Some n)"

subsection \<open>Exceptions and calls that leave the class\<close>

datatype error =
    ImproperlyConfigured ref
  | NotRegistered string
  | KeyError string

text \<open>
  \<^verbatim>\<open>register\<close> and \<^verbatim>\<open>unregister\<close> call \<^verbatim>\<open>warnings.warn\<close> and the module-level
  procedures \<^verbatim>\<open>_add_resource\<close> and \<^verbatim>\<open>_remove_resource\<close> of the package, which
  keep a registry of their own. Their bodies are not part of \<^verbatim>\<open>api.py\<close>; the model
  records each call, with its arguments, in the order in which it is made. It takes
  them to return normally and to leave the two dictionaries of the \<^verbatim>\<open>Api\<close> alone.
\<close>

datatype effect =
    Warn ref string
  | Add_resource ref bool
  | Remove_resource ref

subsection \<open>The state\<close>

record state =
  api_name :: string
  registry :: "(string, ref) fmap"
  canonicals :: "(string, ref) fmap"
  objects :: "ref \<Rightarrow> resource"
  effects :: "effect list"

text \<open>
  \<^verbatim>\<open>Api.__init__(api_name)\<close>, in a world with the objects \<open>h\<close> where no call has
  left the class yet.
\<close>

definition init :: "string \<Rightarrow> (ref \<Rightarrow> resource) \<Rightarrow> state" where
  "init name h =
     \<lparr>api_name = name, registry = fmempty, canonicals = fmempty, objects = h, effects = []\<rparr>"

subsection \<open>register, unregister, canonical_resource_for\<close>

text \<open>
  Every operation returns its result, an exception being \<open>Inl\<close>, together with the
  state it leaves behind.
\<close>

definition register :: "state \<Rightarrow> ref \<Rightarrow> bool \<Rightarrow> (error + unit) \<times> state" where
  "register s res canonical =
     (case getattr_resource_name (objects s res) of
        None \<Rightarrow> (Inl (ImproperlyConfigured res), s)
      | Some name \<Rightarrow>
          (let s1 = s\<lparr>registry := fmupd name res (registry s)\<rparr>;
               s2 = (if canonical
                     then (let s1' = (if name |\<in>| fmdom (canonicals s1)
                                      then s1\<lparr>effects := effects s1 @ [Warn res name]\<rparr>
                                      else s1)
                           in s1'\<lparr>canonicals := fmupd name res (canonicals s1')\<rparr>)
                     else s1)
           in (Inr (), s2\<lparr>effects := effects s2 @ [Add_resource res canonical]\<rparr>)))"

definition unregister :: "state \<Rightarrow> string \<Rightarrow> (error + unit) \<times> state" where
  "unregister s name =
     (let s1 = (case fmlookup (registry s) name of
                  Some res \<Rightarrow>
                    s\<lparr>effects := effects s @ [Remove_resource res],
                      registry := fmdrop name (registry s)\<rparr>
                | None \<Rightarrow> s);
          s2 = (if name |\<in>| fmdom (canonicals s1)
                then s1\<lparr>canonicals := fmdrop name (canonicals s1)\<rparr>
                else s1)
      in (Inr (), s2))"

definition canonical_resource_for :: "state \<Rightarrow> string \<Rightarrow> (error + ref) \<times> state" where
  "canonical_resource_for s name =
     (case fmlookup (canonicals s) name of
        Some res \<Rightarrow> (Inr res, s)
      | None \<Rightarrow> (Inl (NotRegistered name), s))"

subsection \<open>urls\<close>

text \<open>
  The URLconf entries are kept as terms: \<^verbatim>\<open>url(regex, view, name=...)\<close>, and the
  pair \<^verbatim>\<open>(regex, include(resource.urls))\<close>. The property \<^verbatim>\<open>urls\<close> of a resource
  belongs to the resource class; what the \<^verbatim>\<open>Api\<close> passes on is the object and the
  attributes it has when the property is read.
\<close>

datatype view = Wrap_view string

datatype urlconf = Resource_urls ref resource

datatype pattern =
    Url string view string
  | Include string urlconf

text \<open>\<^verbatim>\<open>sorted(d.keys())\<close>\<close>

definition sorted_keys :: "(string, 'v) fmap \<Rightarrow> string list" where
  "sorted_keys d = sorted_list_of_fset (fmdom d)"

text \<open>
  The loop of \<^verbatim>\<open>urls\<close> over the sorted names. \<^verbatim>\<open>self._registry[name]\<close> raises
  \<^verbatim>\<open>KeyError\<close> for a name that is not a key.
\<close>

fun urls_loop :: "state \<Rightarrow> string list \<Rightarrow> pattern list \<Rightarrow> (error + pattern list) \<times> state" where
  "urls_loop s [] pattern_list = (Inr pattern_list, s)"
| "urls_loop s (name # names) pattern_list =
     (case fmlookup (registry s) name of
        None \<Rightarrow> (Inl (KeyError name), s)
      | Some res \<Rightarrow>
          (let s' = s\<lparr>objects := (objects s)(res := (objects s res)\<lparr>res_api_name := Some (api_name s)\<rparr>)\<rparr>
           in urls_loop s' names
                (pattern_list @
                  [Include (''^(?P<api_name>'' @ api_name s' @ '')/'')
                     (Resource_urls res (objects s' res))])))"

definition urls :: "state \<Rightarrow> (error + pattern list) \<times> state" where
  "urls s =
     urls_loop s (sorted_keys (registry s))
       [Url (''^(?P<api_name>'' @ api_name s @ '')/$'') (Wrap_view ''top_level'')
          (''api_'' @ api_name s @ ''_top_level'')]"

subsection \<open>top_level\<close>

text \<open>
  \<^verbatim>\<open>reverse\<close>, \<^verbatim>\<open>determine_format\<close>, \<^verbatim>\<open>Serializer.serialize\<close>,
  \<^verbatim>\<open>build_content_type\<close> and \<^verbatim>\<open>HttpResponse\<close> belong to Django and to other
  modules of the package; the view only passes values from one to the next. Each call
  is kept as a term over its arguments, the request being of any type.
\<close>

datatype url = Reverse string string string

datatype 'req format = Determine_format 'req

datatype 'req content = Serialize "(string, url) fmap" "'req format"

datatype 'req content_type = Build_content_type "'req format"

datatype 'req response = HttpResponse (content: "'req content") (content_type: "'req content_type")

text \<open>
  \<open>Reverse ''api_dispatch_list'' a n\<close> is
  \<^verbatim>\<open>reverse("api_dispatch_list", kwargs={'api_name': a, 'resource_name': n})\<close>.
\<close>

fun available_loop :: "string \<Rightarrow> string list \<Rightarrow> (string, url) fmap \<Rightarrow> (string, url) fmap" where
  "available_loop a [] available_resources = available_resources"
| "available_loop a (name # names) available_resources =
     available_loop a names (fmupd name (Reverse ''api_dispatch_list'' a name) available_resources)"

definition top_level :: "state \<Rightarrow> 'req \<Rightarrow> string option \<Rightarrow> (error + 'req response) \<times> state" where
  "top_level s request api_name_arg =
     (let a = (case api_name_arg of None \<Rightarrow> api_name s | Some n \<Rightarrow> n);
          available_resources = available_loop a (sorted_keys (registry s)) fmempty;
          desired_format = Determine_format request;
          serialized = Serialize available_resources desired_format
      in (Inr (HttpResponse serialized (Build_content_type desired_format)), s))"

subsection \<open>Sequences of calls\<close>

datatype 'req call =
    Register ref bool
  | Unregister string
  | Canonical_resource_for string
  | Urls
  | Top_level 'req "string option"

fun step :: "state \<Rightarrow> 'req call \<Rightarrow> state" where
  "step s (Register res canonical) = snd (register s res canonical)"
| "step s (Unregister name) = snd (unregister s name)"
| "step s (Canonical_resource_for name) = snd (canonical_resource_for s name)"
| "step s Urls = snd (urls s)"
| "step s (Top_level request a) = snd (top_level s request a)"

fun run :: "state \<Rightarrow> 'req call list \<Rightarrow> state" where
  "run s [] = s"
| "run s (c # cs) = run (step s c) cs"

subsection \<open>A concrete world\<close>

text \<open>
  Five resource objects: \<open>0\<close> and \<open>2\<close> are both named \<^verbatim>\<open>notes\<close>, \<open>1\<close> is named
  \<^verbatim>\<open>users\<close>, the \<^verbatim>\<open>resource_name\<close> of \<open>3\<close> is \<^verbatim>\<open>None\<close>, and every other object
  has no such attribute.
\<close>

definition example_objects :: "ref \<Rightarrow> resource" where
  "example_objects r =
     (if r = 0 then \<lparr>resource_name = Str ''notes'', res_api_name = None\<rparr>
      else if r = 1 then \<lparr>resource_name = Str ''users'', res_api_name = None\<rparr>
      else if r = 2 then \<lparr>resource_name = Str ''notes'', res_api_name = None\<rparr>
      else if r = 3 then \<lparr>resource_name = PyNone, res_api_name = None\<rparr>
      else \<lparr>resource_name = Absent, res_api_name = None\<rparr>)"

definition example_calls :: "unit call list" where
  "example_calls =
     [Register 0 True, Register 1 False, Register 3 True, Urls,
      Unregister ''users'', Register 1 False, Register 2 False]"

subsection \<open>The invariant of the two dictionaries\<close>

definition canonical_is_registered :: "state \<Rightarrow> bool" where
  "canonical_is_registered s \<longleftrightarrow> fmdom (canonicals s) |\<subseteq>| fmdom (registry s)"


subsection \<open>The history of canonical registrations\<close>

text \<open>
  What a caller expects of \<^verbatim>\<open>canonical_resource_for(n)\<close>, read off the calls made so
  far, the most recent first: the resource of the latest call \<^verbatim>\<open>register(res, True)\<close>
  with a resource named \<open>n\<close>, unless \<^verbatim>\<open>unregister(n)\<close> was called after it. The
  objects are those of the start: no call changes a \<^verbatim>\<open>resource_name\<close>.
\<close>

fun latest_canonical :: "(ref \<Rightarrow> resource) \<Rightarrow> string \<Rightarrow> 'req call list \<Rightarrow> ref option" where
  "latest_canonical h n [] = None"
| "latest_canonical h n (Register res canonical # earlier) =
     (if canonical \<and> resource_name (h res) = Str n then Some res
      else latest_canonical h n earlier)"
| "latest_canonical h n (Unregister m # earlier) =
     (if m = n then None else latest_canonical h n earlier)"
| "latest_canonical h n (Canonical_resource_for m # earlier) = latest_canonical h n earlier"
| "latest_canonical h n (Urls # earlier) = latest_canonical h n earlier"
| "latest_canonical h n (Top_level request a # earlier) = latest_canonical h n earlier"

definition example_history :: "unit call list" where
  "example_history =
     [Register 2 True, Register 0 True, Register 2 False, Register 1 True,
      Unregister ''users'']"

subsection \<open>The entry of one resource in the pattern list\<close>

text \<open>
  The entry \<^verbatim>\<open>urls\<close> appends for the resource \<open>res\<close>: the prefix with the name of the
  \<^verbatim>\<open>Api\<close>, and the \<^verbatim>\<open>urls\<close> of the resource read after its \<^verbatim>\<open>api_name\<close> was set.
\<close>

definition include_entry :: "state \<Rightarrow> ref \<Rightarrow> pattern" where
  "include_entry s res =
     Include (''^(?P<api_name>'' @ api_name s @ '')/'')
       (Resource_urls res ((objects s res)\<lparr>res_api_name := Some (api_name s)\<rparr>))"

section \<open>Properties\<close>

subsection \<open>register\<close>

lemma getattr_resource_name_None:
  "getattr_resource_name r = None \<longleftrightarrow> resource_name r = Absent \<or> resource_name r = PyNone"
  by (cases "resource_name r") (simp_all add: getattr_resource_name_def)

lemma getattr_resource_name_Some:
  "getattr_resource_name r = Some n \<longleftrightarrow> resource_name r = Str n"
  by (cases "resource_name r") (auto simp: getattr_resource_name_def)

lemma register_None:
  "getattr_resource_name (objects s res) = None \<Longrightarrow>
     register s res c = (Inl (ImproperlyConfigured res), s)"
  by (simp add: register_def)

lemma register_Some_fst:
  "getattr_resource_name (objects s res) = Some n \<Longrightarrow> fst (register s res c) = Inr ()"
  by (simp add: register_def Let_def)

lemma register_Some_registry:
  "getattr_resource_name (objects s res) = Some n \<Longrightarrow>
     registry (snd (register s res c)) = fmupd n res (registry s)"
  by (simp add: register_def Let_def)

lemma register_Some_canonicals:
  "getattr_resource_name (objects s res) = Some n \<Longrightarrow>
     canonicals (snd (register s res c)) =
       (if c then fmupd n res (canonicals s) else canonicals s)"
  by (simp add: register_def Let_def)

lemma register_objects: "objects (snd (register s res c)) = objects s"
  by (simp add: register_def Let_def split: option.split)

lemma register_api_name: "api_name (snd (register s res c)) = api_name s"
  by (simp add: register_def Let_def split: option.split)

text \<open>
  C8: \<^verbatim>\<open>register(resource)\<close> raises exactly when the resource has no attribute
  \<^verbatim>\<open>resource_name\<close> or the attribute is \<^verbatim>\<open>None\<close>; the exception is then
  \<^verbatim>\<open>ImproperlyConfigured\<close>, and the state, with both dictionaries, is the one before
  the call.
\<close>

theorem register_raises_iff:
  "((\<exists>e. fst (register s res c) = Inl e) \<longleftrightarrow>
      (resource_name (objects s res) = Absent \<or> resource_name (objects s res) = PyNone)) \<and>
   (\<forall>e. fst (register s res c) = Inl e \<longrightarrow>
      e = ImproperlyConfigured res \<and> snd (register s res c) = s)"
proof (cases "getattr_resource_name (objects s res)")
  case None
  then show ?thesis
    using register_None [OF None, of c] by (simp add: getattr_resource_name_None)
next
  case (Some n)
  have "resource_name (objects s res) = Str n"
    using Some by (simp add: getattr_resource_name_Some)
  then show ?thesis
    using register_Some_fst [OF Some, of c] by simp
qed

theorem register_raises_iff_witness:
  "resource_name (objects (init ''v1'' example_objects) 3) = PyNone \<and>
   fst (register (init ''v1'' example_objects) 3 True) = Inl (ImproperlyConfigured 3) \<and>
   snd (register (init ''v1'' example_objects) 3 True) = init ''v1'' example_objects"
proof -
  have n: "resource_name (objects (init ''v1'' example_objects) 3) = PyNone"
    by (simp add: init_def example_objects_def)
  from register_raises_iff [of "init ''v1'' example_objects" 3 True] n
  obtain e where e: "fst (register (init ''v1'' example_objects) 3 True) = Inl e"
    by auto
  with register_raises_iff [of "init ''v1'' example_objects" 3 True] n show ?thesis
    by simp
qed

subsection \<open>unregister, urls and the views: what each call leaves alone\<close>


lemma fmdrop_absent: "fmlookup m n = None \<Longrightarrow> fmdrop n m = m"
  by (simp add: fmdrop_idle fmdom_notI)

lemma unregister_fst: "fst (unregister s n) = Inr ()"
  by (simp add: unregister_def Let_def)

lemma unregister_registry: "registry (snd (unregister s n)) = fmdrop n (registry s)"
  by (simp add: unregister_def Let_def fmdrop_absent split: option.split)

lemma unregister_canonicals: "canonicals (snd (unregister s n)) = fmdrop n (canonicals s)"
  by (auto simp: unregister_def Let_def fmdrop_idle split: option.split)

lemma unregister_objects: "objects (snd (unregister s n)) = objects s"
  by (simp add: unregister_def Let_def split: option.split)

lemma unregister_api_name: "api_name (snd (unregister s n)) = api_name s"
  by (simp add: unregister_def Let_def split: option.split)

lemma unregister_absent:
  "fmlookup (registry s) n = None \<Longrightarrow> fmlookup (canonicals s) n = None \<Longrightarrow>
     unregister s n = (Inr (), s)"
  by (simp add: unregister_def Let_def fmdom_notI)

lemma urls_loop_registry: "registry (snd (urls_loop s ns pl)) = registry s"
  by (induction ns arbitrary: s pl) (simp_all add: Let_def split: option.split)

lemma urls_loop_canonicals: "canonicals (snd (urls_loop s ns pl)) = canonicals s"
  by (induction ns arbitrary: s pl) (simp_all add: Let_def split: option.split)

lemma urls_loop_api_name: "api_name (snd (urls_loop s ns pl)) = api_name s"
  by (induction ns arbitrary: s pl) (simp_all add: Let_def split: option.split)

lemma urls_loop_effects: "effects (snd (urls_loop s ns pl)) = effects s"
  by (induction ns arbitrary: s pl) (simp_all add: Let_def split: option.split)

lemma urls_loop_resource_name:
  "resource_name (objects (snd (urls_loop s ns pl)) r) = resource_name (objects s r)"
  by (induction ns arbitrary: s pl) (simp_all add: Let_def split: option.split)

lemma top_level_snd: "snd (top_level s request a) = s"
  by (simp add: top_level_def Let_def)

lemma canonical_resource_for_snd: "snd (canonical_resource_for s n) = s"
  by (simp add: canonical_resource_for_def split: option.split)

lemma step_api_name: "api_name (step s c) = api_name s"
  by (cases c)
    (simp_all add: register_api_name unregister_api_name canonical_resource_for_snd
      urls_def urls_loop_api_name top_level_snd)

lemma step_resource_name: "resource_name (objects (step s c) r) = resource_name (objects s r)"
  by (cases c)
    (simp_all add: register_objects unregister_objects canonical_resource_for_snd
      urls_def urls_loop_resource_name top_level_snd)

lemma run_resource_name: "resource_name (objects (run s cs) r) = resource_name (objects s r)"
  by (induction cs arbitrary: s) (simp_all add: step_resource_name)

lemma run_api_name: "api_name (run s cs) = api_name s"
  by (induction cs arbitrary: s) (simp_all add: step_api_name)

lemma run_append: "run s (cs @ ds) = run (run s cs) ds"
  by (induction cs arbitrary: s) simp_all

lemma step_canonical_is_registered:
  assumes inv: "canonical_is_registered s"
  shows "canonical_is_registered (step s c)"
proof (cases c)
  case (Register res canonical)
  show ?thesis
  proof (cases "getattr_resource_name (objects s res)")
    case None
    then show ?thesis
      using Register inv by (simp add: register_None)
  next
    case (Some n)
    then show ?thesis
      using Register inv
      by (auto simp: canonical_is_registered_def register_Some_registry register_Some_canonicals)
  qed
next
  case (Unregister n)
  then show ?thesis
    using inv
    by (auto simp: canonical_is_registered_def unregister_registry unregister_canonicals)
next
  case (Canonical_resource_for n)
  then show ?thesis using inv by (simp add: canonical_resource_for_snd)
next
  case Urls
  then show ?thesis
    using inv
    by (simp add: canonical_is_registered_def urls_def urls_loop_registry urls_loop_canonicals)
next
  case (Top_level request a)
  then show ?thesis using inv by (simp add: top_level_snd)
qed

lemma run_canonical_is_registered:
  "canonical_is_registered s \<Longrightarrow> canonical_is_registered (run s cs)"
  by (induction cs arbitrary: s) (simp_all add: step_canonical_is_registered)

lemma init_canonical_is_registered: "canonical_is_registered (init a h)"
  by (simp add: canonical_is_registered_def init_def)

text \<open>
  C10: starting from an \<^verbatim>\<open>Api\<close> as \<^verbatim>\<open>__init__\<close> leaves it, after any sequence of
  calls every key of \<^verbatim>\<open>_canonicals\<close> is a key of \<^verbatim>\<open>_registry\<close>.
\<close>

theorem canonicals_subset_registry:
  "fmdom (canonicals (run (init a h) cs)) |\<subseteq>| fmdom (registry (run (init a h) cs))"
  using run_canonical_is_registered [OF init_canonical_is_registered, of a h cs]
  by (simp add: canonical_is_registered_def)

theorem canonicals_subset_registry_witness:
  "fmdom (canonicals (run (init ''v1'' example_objects) example_calls)) = {|''notes''|} \<and>
   fmdom (registry (run (init ''v1'' example_objects) example_calls)) = {|''notes'', ''users''|} \<and>
   fmdom (canonicals (run (init ''v1'' example_objects) example_calls))
     |\<subseteq>| fmdom (registry (run (init ''v1'' example_objects) example_calls))"
proof -
  have c: "fmdom (canonicals (run (init ''v1'' example_objects) example_calls)) = {|''notes''|}"
    by code_simp
  have r: "fmdom (registry (run (init ''v1'' example_objects) example_calls))
             = {|''notes'', ''users''|}"
    by code_simp
  from c r canonicals_subset_registry [of "''v1''" example_objects example_calls]
  show ?thesis by blast
qed

subsection \<open>canonical_resource_for\<close>

lemma register_canonicals_lookup:
  "fmlookup (canonicals (snd (register s res c))) n =
     (if c \<and> resource_name (objects s res) = Str n then Some res
      else fmlookup (canonicals s) n)"
proof (cases "getattr_resource_name (objects s res)")
  case None
  then show ?thesis
    by (auto simp: register_None getattr_resource_name_None)
next
  case (Some m)
  then show ?thesis
    by (auto simp: register_Some_canonicals getattr_resource_name_Some)
qed

lemma unregister_canonicals_lookup:
  "fmlookup (canonicals (snd (unregister s m))) n =
     (if m = n then None else fmlookup (canonicals s) n)"
  by (simp add: unregister_canonicals)

lemma canonicals_latest:
  "fmlookup (canonicals (run (init a h) cs)) n = latest_canonical h n (rev cs)"
proof (induction cs rule: rev_induct)
  case Nil
  show ?case by (simp add: init_def)
next
  case (snoc c cs)
  have h: "resource_name (objects (run (init a h) cs) r) = resource_name (h r)" for r
    by (simp add: run_resource_name init_def)
  show ?case
  proof (cases c)
    case (Register res canonical)
    then show ?thesis
      using snoc by (simp add: run_append register_canonicals_lookup h)
  next
    case (Unregister m)
    then show ?thesis
      using snoc by (simp add: run_append unregister_canonicals_lookup)
  next
    case (Canonical_resource_for m)
    then show ?thesis
      using snoc by (simp add: run_append canonical_resource_for_snd)
  next
    case Urls
    then show ?thesis
      using snoc by (simp add: run_append urls_def urls_loop_canonicals)
  next
    case (Top_level request b)
    then show ?thesis
      using snoc by (simp add: run_append top_level_snd)
  qed
qed

text \<open>
  C9: after any sequence of calls on a new \<^verbatim>\<open>Api\<close>, \<^verbatim>\<open>canonical_resource_for(n)\<close>
  returns the resource most recently registered as canonical under \<open>n\<close> and not
  unregistered since, raises \<^verbatim>\<open>NotRegistered\<close> when there is none, and leaves the state as
  it is in both cases.
\<close>

theorem canonical_resource_for_latest:
  "canonical_resource_for (run (init a h) cs) n =
     ((case latest_canonical h n (rev cs) of
         Some res \<Rightarrow> Inr res
       | None \<Rightarrow> Inl (NotRegistered n)),
      run (init a h) cs)"
  by (simp add: canonical_resource_for_def canonicals_latest split: option.split)

theorem canonical_resource_for_latest_witness:
  "fst (canonical_resource_for (run (init ''v1'' example_objects) example_history) ''notes'') = Inr 0 \<and>
   fst (canonical_resource_for (run (init ''v1'' example_objects) example_history) ''users'')
     = Inl (NotRegistered ''users'') \<and>
   snd (canonical_resource_for (run (init ''v1'' example_objects) example_history) ''notes'')
     = run (init ''v1'' example_objects) example_history"
proof -
  have n: "latest_canonical example_objects ''notes'' (rev example_history) = Some 0"
    by code_simp
  have u: "latest_canonical example_objects ''users'' (rev example_history) = None"
    by code_simp
  show ?thesis
    using canonical_resource_for_latest [of "''v1''" example_objects example_history "''notes''"]
      canonical_resource_for_latest [of "''v1''" example_objects example_history "''users''"]
    by (simp add: n u)
qed

subsection \<open>The registry is a dictionary\<close>

lemma register_registry_lookup:
  "resource_name (objects s res) = Str n \<Longrightarrow>
     fmlookup (registry (snd (register s res c))) m =
       (if m = n then Some res else fmlookup (registry s) m)"
  by (auto simp: register_Some_registry getattr_resource_name_Some [symmetric])

text \<open>
  C3: for a resource whose \<^verbatim>\<open>resource_name\<close> is a name \<open>n\<close>, \<^verbatim>\<open>register\<close> returns
  normally and the registry then maps \<open>n\<close> to that resource, whatever it held for \<open>n\<close>
  before, every other name keeping its entry; and after any further calls a name is
  associated with at most one resource.
\<close>

theorem register_overwrites:
  "resource_name (objects s res) = Str n \<Longrightarrow>
     fst (register s res c) = Inr () \<and>
     fmlookup (registry (snd (register s res c))) n = Some res \<and>
     (\<forall>m. m \<noteq> n \<longrightarrow>
        fmlookup (registry (snd (register s res c))) m = fmlookup (registry s) m) \<and>
     (\<forall>cs m r1 r2.
        fmlookup (registry (run (snd (register s res c)) cs)) m = Some r1 \<longrightarrow>
        fmlookup (registry (run (snd (register s res c)) cs)) m = Some r2 \<longrightarrow> r1 = r2)"
  by (simp add: register_registry_lookup register_Some_fst getattr_resource_name_Some [symmetric])

theorem register_overwrites_witness:
  "resource_name (objects (run (init ''v1'' example_objects) example_calls) 0) = Str ''notes'' \<and>
   fmlookup (registry (run (init ''v1'' example_objects) example_calls)) ''notes'' = Some 2 \<and>
   fst (register (run (init ''v1'' example_objects) example_calls) 0 False) = Inr () \<and>
   fmlookup (registry (snd (register (run (init ''v1'' example_objects) example_calls) 0 False)))
     ''notes'' = Some 0 \<and>
   fmlookup (registry (snd (register (run (init ''v1'' example_objects) example_calls) 0 False)))
     ''users'' = Some 1"
proof -
  have n: "resource_name (objects (run (init ''v1'' example_objects) example_calls) 0)
             = Str ''notes''"
    by (simp add: run_resource_name init_def example_objects_def)
  have old: "fmlookup (registry (run (init ''v1'' example_objects) example_calls)) ''notes''
               = Some 2"
    by code_simp
  have other: "fmlookup (registry (run (init ''v1'' example_objects) example_calls)) ''users''
                 = Some 1"
    by code_simp
  note t = register_overwrites [OF n, of False]
  from t have ok: "fst (register (run (init ''v1'' example_objects) example_calls) 0 False)
      = Inr ()"
    by (elim conjE)
  from t have new: "fmlookup
      (registry (snd (register (run (init ''v1'' example_objects) example_calls) 0 False)))
      ''notes'' = Some 0"
    by (elim conjE)
  from t have "\<forall>m. m \<noteq> ''notes'' \<longrightarrow>
      fmlookup (registry (snd (register (run (init ''v1'' example_objects) example_calls) 0 False))) m
        = fmlookup (registry (run (init ''v1'' example_objects) example_calls)) m"
    by (elim conjE)
  then have kept: "fmlookup
      (registry (snd (register (run (init ''v1'' example_objects) example_calls) 0 False)))
      ''users'' = Some 1"
    by (simp add: other)
  from n old ok new kept show ?thesis
    by simp
qed

subsection \<open>unregister\<close>

lemma unregister_idem: "unregister (snd (unregister s n)) n = unregister s n"
proof -
  have "fmlookup (registry (snd (unregister s n))) n = None"
    by (simp add: unregister_registry)
  moreover have "fmlookup (canonicals (snd (unregister s n))) n = None"
    by (simp add: unregister_canonicals)
  ultimately have "unregister (snd (unregister s n)) n = (Inr (), snd (unregister s n))"
    by (rule unregister_absent)
  then show ?thesis
    by (simp add: prod_eq_iff unregister_fst)
qed

lemma unregister_unregistered:
  assumes inv: "canonical_is_registered s" and n: "n |\<notin>| fmdom (registry s)"
  shows "unregister s n = (Inr (), s)"
proof -
  from inv n have "n |\<notin>| fmdom (canonicals s)"
    by (auto simp: canonical_is_registered_def)
  with n show ?thesis
    by (intro unregister_absent) auto
qed

text \<open>
  C5: \<^verbatim>\<open>unregister(n)\<close> leaves \<open>n\<close> in neither dictionary and every other name as it
  was; in a state reached from a new \<^verbatim>\<open>Api\<close> it changes nothing, and makes no call
  outside the class, when \<open>n\<close> is not registered; and a second \<^verbatim>\<open>unregister(n)\<close>
  changes nothing more.
\<close>

theorem unregister_removes:
  "n |\<notin>| fmdom (registry (snd (unregister s n))) \<and>
   n |\<notin>| fmdom (canonicals (snd (unregister s n))) \<and>
   (\<forall>m. m \<noteq> n \<longrightarrow>
      fmlookup (registry (snd (unregister s n))) m = fmlookup (registry s) m \<and>
      fmlookup (canonicals (snd (unregister s n))) m = fmlookup (canonicals s) m) \<and>
   (n |\<notin>| fmdom (registry (run (init a h) cs)) \<longrightarrow>
      unregister (run (init a h) cs) n = (Inr (), run (init a h) cs)) \<and>
   unregister (snd (unregister s n)) n = unregister s n"
proof -
  have "canonical_is_registered (run (init a h) cs)"
    by (rule run_canonical_is_registered) (rule init_canonical_is_registered)
  then have "n |\<notin>| fmdom (registry (run (init a h) cs)) \<longrightarrow>
      unregister (run (init a h) cs) n = (Inr (), run (init a h) cs)"
    by (simp add: unregister_unregistered)
  then show ?thesis
    by (simp add: unregister_registry unregister_canonicals unregister_idem)
qed

theorem unregister_removes_witness:
  "''posts'' |\<notin>| fmdom (registry (run (init ''v1'' example_objects) example_calls)) \<and>
   unregister (run (init ''v1'' example_objects) example_calls) ''posts''
     = (Inr (), run (init ''v1'' example_objects) example_calls) \<and>
   fmdom (registry (run (init ''v1'' example_objects) example_calls)) = {|''notes'', ''users''|} \<and>
   fmdom (canonicals (run (init ''v1'' example_objects) example_calls)) = {|''notes''|} \<and>
   ''notes'' |\<notin>|
     fmdom (registry (snd (unregister (run (init ''v1'' example_objects) example_calls) ''notes''))) \<and>
   ''notes'' |\<notin>|
     fmdom (canonicals (snd (unregister (run (init ''v1'' example_objects) example_calls) ''notes''))) \<and>
   fmlookup (registry (snd (unregister (run (init ''v1'' example_objects) example_calls) ''notes'')))
     ''users'' = Some 1"
proof -
  have r: "fmdom (registry (run (init ''v1'' example_objects) example_calls))
             = {|''notes'', ''users''|}"
    by code_simp
  have c: "fmdom (canonicals (run (init ''v1'' example_objects) example_calls)) = {|''notes''|}"
    by code_simp
  have u: "fmlookup (registry (run (init ''v1'' example_objects) example_calls)) ''users''
             = Some 1"
    by code_simp
  have p: "''posts'' |\<notin>| fmdom (registry (run (init ''v1'' example_objects) example_calls))"
    by (simp add: r)
  from p r c u
    unregister_removes [of "''posts''" "run (init ''v1'' example_objects) example_calls"
      "''v1''" example_objects example_calls]
    unregister_removes [of "''notes''" "run (init ''v1'' example_objects) example_calls"
      "''v1''" example_objects example_calls]
  show ?thesis
    by simp
qed

subsection \<open>top_level\<close>

text \<open>
  C7: \<^verbatim>\<open>top_level\<close> leaves the registry and the canonicals as they are; it changes
  nothing of the state.
\<close>

theorem top_level_reads_only:
  "registry (snd (top_level s request a)) = registry s \<and>
   canonicals (snd (top_level s request a)) = canonicals s \<and>
   snd (top_level s request a) = s"
  by (simp add: top_level_snd)

theorem top_level_reads_only_witness:
  "fmdom (registry (snd (top_level (run (init ''v1'' example_objects) example_calls) () None)))
     = {|''notes'', ''users''|} \<and>
   fmdom (canonicals (snd (top_level (run (init ''v1'' example_objects) example_calls) () None)))
     = {|''notes''|} \<and>
   snd (top_level (run (init ''v1'' example_objects) example_calls) () None)
     = run (init ''v1'' example_objects) example_calls"
proof -
  have r: "fmdom (registry (run (init ''v1'' example_objects) example_calls))
             = {|''notes'', ''users''|}"
    by code_simp
  have c: "fmdom (canonicals (run (init ''v1'' example_objects) example_calls)) = {|''notes''|}"
    by code_simp
  from r c top_level_reads_only [of "run (init ''v1'' example_objects) example_calls" "()" None]
  show ?thesis
    by simp
qed

subsection \<open>urls\<close>

lemma set_sorted_keys: "set (sorted_keys d) = fset (fmdom d)"
  by (simp add: sorted_keys_def)

lemma strict_sorted_keys: "sorted_wrt (<) (sorted_keys d)"
  by (simp add: sorted_keys_def sorted_list_of_fset.rep_eq)

lemma include_entry_stamped:
  "include_entry (s\<lparr>objects := (objects s)(r := (objects s r)\<lparr>res_api_name := Some (api_name s)\<rparr>)\<rparr>) res
     = include_entry s res"
  by (simp add: include_entry_def)

lemma urls_loop_includes:
  "\<forall>n \<in> set ns. n |\<in>| fmdom (registry s) \<Longrightarrow>
     \<exists>entries. fst (urls_loop s ns pl) = Inr (pl @ entries) \<and>
       list_all2 (\<lambda>n p. \<exists>res. fmlookup (registry s) n = Some res \<and> p = include_entry s res)
         ns entries"
proof (induction ns arbitrary: s pl)
  case Nil
  then show ?case by simp
next
  case (Cons n ns)
  from Cons.prems obtain res where res: "fmlookup (registry s) n = Some res"
    by (auto simp: fmlookup_dom_iff)
  define s' where
    "s' = s\<lparr>objects := (objects s)(res := (objects s res)\<lparr>res_api_name := Some (api_name s)\<rparr>)\<rparr>"
  have entry: "include_entry s' r = include_entry s r" for r
    unfolding s'_def by (rule include_entry_stamped)
  have first: "Include (''^(?P<api_name>'' @ api_name s' @ '')/'') (Resource_urls res (objects s' res))
      = include_entry s res"
    by (simp add: s'_def include_entry_def)
  have "\<forall>m \<in> set ns. m |\<in>| fmdom (registry s')"
    using Cons.prems by (simp add: s'_def)
  from Cons.IH [OF this, of "pl @ [include_entry s res]"]
  obtain entries where
    run: "fst (urls_loop s' ns (pl @ [include_entry s res])) = Inr ((pl @ [include_entry s res]) @ entries)"
    and all: "list_all2 (\<lambda>n p. \<exists>r. fmlookup (registry s') n = Some r \<and> p = include_entry s' r)
         ns entries"
    by blast
  have reg: "registry s' = registry s"
    by (simp add: s'_def)
  have "fst (urls_loop s (n # ns) pl) = Inr (pl @ include_entry s res # entries)"
    using run first by (simp add: res Let_def s'_def [symmetric])
  moreover have "list_all2 (\<lambda>n p. \<exists>r. fmlookup (registry s) n = Some r \<and> p = include_entry s r)
      (n # ns) (include_entry s res # entries)"
    using all by (simp add: res entry reg)
  ultimately show ?case
    by blast
qed

lemma urls_includes:
  "\<exists>entries. fst (urls s) =
       Inr (Url (''^(?P<api_name>'' @ api_name s @ '')/$'') (Wrap_view ''top_level'')
              (''api_'' @ api_name s @ ''_top_level'') # entries) \<and>
     list_all2 (\<lambda>n p. \<exists>res. fmlookup (registry s) n = Some res \<and> p = include_entry s res)
       (sorted_keys (registry s)) entries"
proof -
  have "\<forall>n \<in> set (sorted_keys (registry s)). n |\<in>| fmdom (registry s)"
    by (simp add: set_sorted_keys)
  from urls_loop_includes [OF this,
      of "[Url (''^(?P<api_name>'' @ api_name s @ '')/$'') (Wrap_view ''top_level'')
             (''api_'' @ api_name s @ ''_top_level'')]"]
  show ?thesis
    unfolding urls_def by simp
qed

lemma example_api_name: "api_name (run (init ''v1'' example_objects) example_calls) = ''v1''"
  by (simp add: run_api_name init_def)

lemma example_registry_dom:
  "fmdom (registry (run (init ''v1'' example_objects) example_calls)) = {|''notes'', ''users''|}"
  by code_simp

text \<open>
  C4: the pattern list of \<^verbatim>\<open>urls\<close> starts with the pattern of the discovery view and
  goes on with one include for each registered name, the names taken in strictly
  ascending lexicographic order.
\<close>

theorem urls_order:
  "\<exists>names entries.
     fst (urls s) =
       Inr (Url (''^(?P<api_name>'' @ api_name s @ '')/$'') (Wrap_view ''top_level'')
              (''api_'' @ api_name s @ ''_top_level'') # entries) \<and>
     set names = fset (fmdom (registry s)) \<and>
     sorted_wrt (<) names \<and>
     list_all2
       (\<lambda>name p. \<exists>res. fmlookup (registry s) name = Some res \<and>
          p = Include (''^(?P<api_name>'' @ api_name s @ '')/'')
                (Resource_urls res ((objects s res)\<lparr>res_api_name := Some (api_name s)\<rparr>)))
       names entries"
  using urls_includes [of s] set_sorted_keys [of "registry s"] strict_sorted_keys [of "registry s"]
  unfolding include_entry_def by blast

theorem urls_order_witness:
  "fst (urls (run (init ''v1'' example_objects) example_calls)) =
     Inr [Url ''^(?P<api_name>v1)/$'' (Wrap_view ''top_level'') ''api_v1_top_level'',
          Include ''^(?P<api_name>v1)/''
            (Resource_urls 2 \<lparr>resource_name = Str ''notes'', res_api_name = Some ''v1''\<rparr>),
          Include ''^(?P<api_name>v1)/''
            (Resource_urls 1 \<lparr>resource_name = Str ''users'', res_api_name = Some ''v1''\<rparr>)] \<and>
   (\<exists>names entries.
      fst (urls (run (init ''v1'' example_objects) example_calls)) =
        Inr (Url ''^(?P<api_name>v1)/$'' (Wrap_view ''top_level'') ''api_v1_top_level'' # entries) \<and>
      set names = {''notes'', ''users''} \<and> sorted_wrt (<) names \<and>
      length entries = length names)"
proof -
  have out: "fst (urls (run (init ''v1'' example_objects) example_calls)) =
     Inr [Url ''^(?P<api_name>v1)/$'' (Wrap_view ''top_level'') ''api_v1_top_level'',
          Include ''^(?P<api_name>v1)/''
            (Resource_urls 2 \<lparr>resource_name = Str ''notes'', res_api_name = Some ''v1''\<rparr>),
          Include ''^(?P<api_name>v1)/''
            (Resource_urls 1 \<lparr>resource_name = Str ''users'', res_api_name = Some ''v1''\<rparr>)]"
    by code_simp
  from urls_order [of "run (init ''v1'' example_objects) example_calls"]
  obtain names entries where
    "fst (urls (run (init ''v1'' example_objects) example_calls)) =
        Inr (Url ''^(?P<api_name>v1)/$'' (Wrap_view ''top_level'') ''api_v1_top_level'' # entries)"
    "set names = {''notes'', ''users''}" "sorted_wrt (<) names"
    "length names = length entries"
    unfolding example_api_name example_registry_dom
    by (auto dest: list_all2_lengthD)
  with out show ?thesis
    by (intro conjI exI [of _ names] exI [of _ entries]) simp_all
qed

text \<open>
  C2: every pattern of \<^verbatim>\<open>urls\<close> is under the name of the \<^verbatim>\<open>Api\<close>: the discovery
  view is at \<^verbatim>\<open>^(?P<api_name>NAME)/$\<close>, every other entry is an include under the prefix
  \<^verbatim>\<open>^(?P<api_name>NAME)/\<close>, and every registered resource has such an entry.
\<close>

theorem urls_namespace:
  "\<exists>entries.
     fst (urls s) =
       Inr (Url (''^(?P<api_name>'' @ api_name s @ '')/$'') (Wrap_view ''top_level'')
              (''api_'' @ api_name s @ ''_top_level'') # entries) \<and>
     (\<forall>p \<in> set entries. \<exists>u. p = Include (''^(?P<api_name>'' @ api_name s @ '')/'') u) \<and>
     (\<forall>name res. fmlookup (registry s) name = Some res \<longrightarrow>
        Include (''^(?P<api_name>'' @ api_name s @ '')/'')
          (Resource_urls res ((objects s res)\<lparr>res_api_name := Some (api_name s)\<rparr>))
        \<in> set entries)"
proof -
  from urls_includes [of s] obtain entries where
    run: "fst (urls s) =
       Inr (Url (''^(?P<api_name>'' @ api_name s @ '')/$'') (Wrap_view ''top_level'')
              (''api_'' @ api_name s @ ''_top_level'') # entries)"
    and all: "list_all2 (\<lambda>n p. \<exists>res. fmlookup (registry s) n = Some res \<and> p = include_entry s res)
       (sorted_keys (registry s)) entries"
    by blast
  have a: "\<exists>u. p = Include (''^(?P<api_name>'' @ api_name s @ '')/'') u" if "p \<in> set entries" for p
  proof -
    from that obtain i where "i < length entries" "entries ! i = p"
      by (auto simp: in_set_conv_nth)
    with all show ?thesis
      by (auto simp: list_all2_conv_all_nth include_entry_def)
  qed
  have b: "include_entry s res \<in> set entries" if "fmlookup (registry s) name = Some res" for name res
  proof -
    from that have "name \<in> set (sorted_keys (registry s))"
      by (simp add: set_sorted_keys fmdomI)
    then obtain i where i: "i < length (sorted_keys (registry s))" "sorted_keys (registry s) ! i = name"
      by (auto simp: in_set_conv_nth)
    with all that have "entries ! i = include_entry s res" "i < length entries"
      by (auto simp: list_all2_conv_all_nth)
    then show ?thesis
      by (auto simp: in_set_conv_nth)
  qed
  from run a b show ?thesis
    unfolding include_entry_def by blast
qed

theorem urls_namespace_witness:
  "fmlookup (registry (run (init ''v1'' example_objects) example_calls)) ''users'' = Some 1 \<and>
   (\<exists>entries.
      fst (urls (run (init ''v1'' example_objects) example_calls)) =
        Inr (Url ''^(?P<api_name>v1)/$'' (Wrap_view ''top_level'') ''api_v1_top_level'' # entries) \<and>
      Include ''^(?P<api_name>v1)/''
        (Resource_urls 1 \<lparr>resource_name = Str ''users'', res_api_name = Some ''v1''\<rparr>)
        \<in> set entries)"
proof -
  have u: "fmlookup (registry (run (init ''v1'' example_objects) example_calls)) ''users'' = Some 1"
    by code_simp
  have o: "(objects (run (init ''v1'' example_objects) example_calls) 1)\<lparr>res_api_name := Some ''v1''\<rparr>
      = \<lparr>resource_name = Str ''users'', res_api_name = Some ''v1''\<rparr>"
    by code_simp
  from urls_namespace [of "run (init ''v1'' example_objects) example_calls"]
  obtain entries where
    run: "fst (urls (run (init ''v1'' example_objects) example_calls)) =
        Inr (Url ''^(?P<api_name>v1)/$'' (Wrap_view ''top_level'') ''api_v1_top_level'' # entries)"
    and reg: "\<forall>name res.
        fmlookup (registry (run (init ''v1'' example_objects) example_calls)) name = Some res \<longrightarrow>
        Include ''^(?P<api_name>v1)/''
          (Resource_urls res
            ((objects (run (init ''v1'' example_objects) example_calls) res)
               \<lparr>res_api_name := Some ''v1''\<rparr>))
        \<in> set entries"
    unfolding example_api_name by auto
  from reg u have "Include ''^(?P<api_name>v1)/''
          (Resource_urls 1
            ((objects (run (init ''v1'' example_objects) example_calls) 1)
               \<lparr>res_api_name := Some ''v1''\<rparr>))
        \<in> set entries"
    by blast
  with o run u show ?thesis
    by auto
qed

subsection \<open>The discovery view\<close>

lemma available_loop_lookup:
  "fmlookup (available_loop a ns m) n =
     (if n \<in> set ns then Some (Reverse ''api_dispatch_list'' a n) else fmlookup m n)"
  by (induction ns arbitrary: m) auto

text \<open>
  C1: \<^verbatim>\<open>top_level(request, api_name)\<close> returns a response whose content is the
  serialization of a dictionary with exactly the registered names as keys, each name
  mapped to the reversed URL of \<^verbatim>\<open>api_dispatch_list\<close> for that name and the given
  \<^verbatim>\<open>api_name\<close>, the name of the \<^verbatim>\<open>Api\<close> standing in for an argument \<^verbatim>\<open>None\<close>.
\<close>

theorem top_level_lists_resources:
  "\<exists>m. fst (top_level s request arg) =
         Inr (HttpResponse (Serialize m (Determine_format request))
                (Build_content_type (Determine_format request))) \<and>
       fmdom m = fmdom (registry s) \<and>
       (\<forall>n. n |\<in>| fmdom (registry s) \<longrightarrow>
          fmlookup m n =
            Some (Reverse ''api_dispatch_list''
                    (case arg of None \<Rightarrow> api_name s | Some a \<Rightarrow> a) n))"
proof -
  define a where "a = (case arg of None \<Rightarrow> api_name s | Some a \<Rightarrow> a)"
  define m where "m = available_loop a (sorted_keys (registry s)) fmempty"
  have look: "fmlookup m n =
      (if n |\<in>| fmdom (registry s) then Some (Reverse ''api_dispatch_list'' a n) else None)" for n
    by (simp add: m_def available_loop_lookup set_sorted_keys)
  have "fmdom m = fmdom (registry s)"
    by (rule fset_eqI) (simp add: fmlookup_dom_iff [of _ m] look)
  moreover have "fst (top_level s request arg) =
         Inr (HttpResponse (Serialize m (Determine_format request))
                (Build_content_type (Determine_format request)))"
    by (simp add: top_level_def Let_def m_def a_def)
  ultimately show ?thesis
    using look unfolding a_def by auto
qed

theorem top_level_lists_resources_witness:
  "\<exists>m. fst (top_level (run (init ''v1'' example_objects) example_calls) () (Some ''v9'')) =
         Inr (HttpResponse (Serialize m (Determine_format ()))
                (Build_content_type (Determine_format ()))) \<and>
       fmdom m = {|''notes'', ''users''|} \<and>
       fmlookup m ''users'' = Some (Reverse ''api_dispatch_list'' ''v9'' ''users'')"
proof -
  from top_level_lists_resources
    [of "run (init ''v1'' example_objects) example_calls" "()" "Some ''v9''"]
  obtain m where
    "fst (top_level (run (init ''v1'' example_objects) example_calls) () (Some ''v9'')) =
         Inr (HttpResponse (Serialize m (Determine_format ()))
                (Build_content_type (Determine_format ())))"
    "fmdom m = {|''notes'', ''users''|}"
    "\<forall>n. n |\<in>| {|''notes'', ''users''|} \<longrightarrow>
          fmlookup m n = Some (Reverse ''api_dispatch_list'' ''v9'' n)"
    unfolding example_registry_dom by auto
  then show ?thesis
    by (intro exI [of _ m]) simp
qed

end
